theory Spec2Isabelle
  imports Main "HOL-Library.Sublist"
begin

section \<open>Data model of \<open>page-details.jsx\<close>\<close>

text \<open>
  Every object of the component that carries an identity has a \<open>uuid\<close> field; versions add
  their capture time (a JavaScript \<open>Date\<close>, compared with \<open><\<close> through its number of
  milliseconds), pages add a title, a url and the \<open>versions\<close> collection, which a page taken
  from the page list may lack (\<open>None\<close> is the JavaScript \<open>undefined\<close>).
\<close>

record entity =
  uuid :: string

record version = entity +
  capture_time :: int

record page = entity +
  title :: string
  url :: string
  versions :: "version list option"

text \<open>
  The props the component reads: the optional list of sibling pages and the two route
  parameters \<open>match.params.pageId\<close> and \<open>match.params.change\<close> (the latter optional).
\<close>

record PageDetailsProps =
  pages :: "page list option"
  pageId :: string
  change :: "string option"

datatype js_error = TypeError

section \<open>The change token\<close>

text \<open>
  \<open>String.prototype.split\<close> with the separator \<open>".."\<close> and no limit: the string is scanned
  from the left, every occurrence of the separator found that way ends a piece and the scan
  goes on behind it; the rest of the string is the last piece. The result always has at
  least one piece (the empty string splits into one empty piece).
\<close>

fun split_dotdot :: "string \<Rightarrow> string list" where
  "split_dotdot [] = [[]]"
| "split_dotdot [c] = [[c]]"
| "split_dotdot (c # d # cs) =
     (if c = CHR ''.'' \<and> d = CHR ''.'' then [] # split_dotdot cs
      else (case split_dotdot (d # cs) of
              [] \<Rightarrow> [[c]]
            | p # ps \<Rightarrow> (c # p) # ps))"

text \<open>
  The array destructuring \<open>const [fromId, toId] = ...\<close>: the first two elements of the
  array, \<open>undefined\<close> (here \<open>None\<close>) where the array is too short.
\<close>

fun destructure2 :: "'a list \<Rightarrow> 'a option \<times> 'a option" where
  "destructure2 [] = (None, None)"
| "destructure2 [a] = (Some a, None)"
| "destructure2 (a # b # rest) = (Some a, Some b)"

text \<open>Line 178 of \<open>_versionsToRender\<close>: \<open>(change || '').split('..')\<close>, destructured.\<close>

definition decode :: "string option \<Rightarrow> string option \<times> string option" where
  "decode chg =
     destructure2 (split_dotdot (case chg of None \<Rightarrow> [] | Some s \<Rightarrow> if s \<noteq> [] then s else []))"

text \<open>A value that is a string or \<open>undefined\<close> is truthy when it is a non-empty string.\<close>

fun truthy :: "string option \<Rightarrow> bool" where
  "truthy None = False"
| "truthy (Some s) = (s \<noteq> [])"

text \<open>
  The token built by \<open>_getChangeUrl\<close> (its local \<open>changeId\<close>), and the url itself. The
  optional \<open>page\<close> argument gives the page identifier when it is present and its uuid is
  truthy; otherwise the route's \<open>pageId\<close> is used.
\<close>

definition changeId :: "version option \<Rightarrow> version option \<Rightarrow> string" where
  "changeId from to =
     (case from of
        None \<Rightarrow> []
      | Some f \<Rightarrow> (case to of None \<Rightarrow> [] | Some t \<Rightarrow> uuid f @ ''..'' @ uuid t))"

definition getChangeUrl ::
  "PageDetailsProps \<Rightarrow> version option \<Rightarrow> version option \<Rightarrow> page option \<Rightarrow> string" where
  "getChangeUrl props from to pg =
     (let pid = (case pg of
                   None \<Rightarrow> pageId props
                 | Some p \<Rightarrow> if uuid p \<noteq> [] then uuid p else pageId props)
      in ''/page/'' @ pid @ ''/'' @ changeId from to)"

section \<open>Choosing the versions to render\<close>

text \<open>
  \<open>_versionsToRender\<close>: both identifiers are looked up by uuid in the page's versions
  (\<open>Array.prototype.find\<close>, the first match). Reading \<open>.find\<close> of a missing \<open>versions\<close>
  collection throws.
\<close>

definition versionsToRender ::
  "PageDetailsProps \<Rightarrow> page \<Rightarrow> js_error + (version option \<times> version option)" where
  "versionsToRender props pg =
     (case decode (change props) of (fromId, toId) \<Rightarrow>
        (case versions pg of
           None \<Rightarrow> Inl TypeError
         | Some vs \<Rightarrow>
             (let from = find (\<lambda>v. Some (uuid v) = fromId) vs;
                  to = find (\<lambda>v. Some (uuid v) = toId) vs
              in if to = None \<or> (truthy fromId \<and> from = None)
                 then Inr (None, None)
                 else Inr (from, to))))"

text \<open>
  The search \<open>versions.find(version => version.capture_time < to.capture_time)\<close> of
  \<open>_renderChange\<close>. The callback reads a property of \<open>to\<close>, which throws when \<open>to\<close> is
  \<open>undefined\<close>; it runs once for each element until it answers true.
\<close>

fun find_older :: "version option \<Rightarrow> version list \<Rightarrow> js_error + version option" where
  "find_older to [] = Inr None"
| "find_older to (v # vs) =
     (case to of
        None \<Rightarrow> Inl TypeError
      | Some t \<Rightarrow> if capture_time v < capture_time t then Inr (Some v) else find_older to vs)"

text \<open>What \<open>_renderChange\<close> returns: one of three elements.\<close>

datatype element =
    Redirect string
  | NoSavedVersions
  | ChangeView version version page

definition renderChange :: "PageDetailsProps \<Rightarrow> page \<Rightarrow> js_error + element" where
  "renderChange props pg =
     (case versionsToRender props pg of
        Inl e \<Rightarrow> Inl e
      | Inr (vfrom, vto) \<Rightarrow>
          (case (vfrom, vto) of
             (Some f, Some t) \<Rightarrow> Inr (ChangeView f t pg)
           | _ \<Rightarrow>
               (case versions pg of
                  None \<Rightarrow> Inl TypeError
                | Some vs \<Rightarrow>
                    (let to = (case vto of Some t \<Rightarrow> Some t | None \<Rightarrow> (case vs of [] \<Rightarrow> None | v # _ \<Rightarrow> Some v))
                     in case find_older to vs of
                          Inl e \<Rightarrow> Inl e
                        | Inr found \<Rightarrow>
                            (let from = (case found of Some f \<Rightarrow> Some f | None \<Rightarrow> to)
                             in if from \<noteq> None \<and> to \<noteq> None
                                then Inr (Redirect (getChangeUrl props from to None))
                                else Inr NoSavedVersions)))))"

section \<open>The pager\<close>

text \<open>
  \<open>Array.prototype.findIndex\<close> answers \<open>-1\<close> when no element satisfies the predicate, and
  reading an array at an index outside of it gives \<open>undefined\<close>.
\<close>

fun findIndex :: "('a \<Rightarrow> bool) \<Rightarrow> 'a list \<Rightarrow> int" where
  "findIndex P [] = - 1"
| "findIndex P (x # xs) =
     (if P x then 0 else (let i = findIndex P xs in if i < 0 then - 1 else i + 1))"

definition at_index :: "'a list \<Rightarrow> int \<Rightarrow> 'a option" where
  "at_index xs i = (if 0 \<le> i \<and> i < int (length xs) then Some (xs ! nat i) else None)"

text \<open>The two link targets of the pager: previous and next.\<close>

datatype pager = Pager string string

definition renderPager :: "PageDetailsProps \<Rightarrow> page \<Rightarrow> pager option" where
  "renderPager props pg =
     (case pages props of
        None \<Rightarrow> None
      | Some allPages \<Rightarrow>
          (let index = findIndex (\<lambda>p. uuid p = uuid pg) allPages;
               previousPage = at_index allPages (index - 1);
               previousUrl = (case previousPage of Some p \<Rightarrow> ''/page/'' @ uuid p | None \<Rightarrow> ''#'');
               nextPage = (if index \<ge> 0 then at_index allPages (index + 1) else None);
               nextUrl = (case nextPage of Some p \<Rightarrow> ''/page/'' @ uuid p | None \<Rightarrow> ''#'')
           in Some (Pager previousUrl nextUrl)))"

section \<open>Loading the page\<close>

text \<open>
  The component as a state: its current props, \<open>this.state.page\<close>, and the promises that
  \<open>_loadPage\<close> has created, in the order of their creation. A promise is recorded with the
  page its \<open>then\<close> callback is still going to receive; \<open>None\<close> stands for a promise whose
  callback will not run (the request was rejected, or the callback has run already).
  The backend's \<open>getPage\<close> is a parameter: the page a request for an identifier answers,
  or \<open>None\<close> when the request fails.
\<close>

record component =
  this_props :: PageDetailsProps
  state_page :: "page option"
  promises :: "page option list"

definition constructor :: "PageDetailsProps \<Rightarrow> component" where
  "constructor p = \<lparr>this_props = p, state_page = None, promises = []\<rparr>"

definition loadPage :: "(string \<Rightarrow> page option) \<Rightarrow> string \<Rightarrow> component \<Rightarrow> component" where
  "loadPage getPage pid c =
     (let fromList = (case pages (this_props c) of
                        None \<Rightarrow> None
                      | Some ps \<Rightarrow> find (\<lambda>p. uuid p = pid \<and> versions p \<noteq> None) ps)
      in c\<lparr>promises := promises c @
                [case fromList of Some p \<Rightarrow> Some p | None \<Rightarrow> getPage pid]\<rparr>)"

text \<open>
  The callback \<open>(page) => { this.setState({page}); }\<close> of the promise created \<open>i\<close>-th:
  it stores the page it receives, whatever the component shows or waits for by then.
\<close>

definition fulfilled :: "nat \<Rightarrow> component \<Rightarrow> component" where
  "fulfilled i c =
     (if i < length (promises c)
      then (case promises c ! i of
              None \<Rightarrow> c
            | Some p \<Rightarrow> c\<lparr>state_page := Some p, promises := (promises c)[i := None]\<rparr>)
      else c)"

text \<open>
  What happens to a mounted component: \<open>componentWillMount\<close>, \<open>componentWillReceiveProps\<close>
  (which still sees the old props as \<open>this.props\<close>; the new ones are installed after it),
  and the fulfilment of one of the promises.
\<close>

datatype event =
    ComponentWillMount
  | ComponentWillReceiveProps PageDetailsProps
  | PromiseFulfilled nat

fun step :: "(string \<Rightarrow> page option) \<Rightarrow> component \<Rightarrow> event \<Rightarrow> component" where
  "step getPage c ComponentWillMount = loadPage getPage (pageId (this_props c)) c"
| "step getPage c (ComponentWillReceiveProps nextProps) =
     (let nextPageId = pageId nextProps;
          c' = (if nextPageId \<noteq> pageId (this_props c) then loadPage getPage nextPageId c else c)
      in c'\<lparr>this_props := nextProps\<rparr>)"
| "step getPage c (PromiseFulfilled i) = fulfilled i c"

definition run :: "(string \<Rightarrow> page option) \<Rightarrow> component \<Rightarrow> event list \<Rightarrow> component" where
  "run getPage c evs = foldl (step getPage) c evs"

section \<open>Auxiliary facts\<close>

lemma split_no_sep: "\<not> sublist ''..'' s \<Longrightarrow> split_dotdot s = [s]"
  by (induction s rule: split_dotdot.induct) (auto simp: sublist_Cons_right)

lemma split_encoded:
  "\<not> sublist ''..'' a \<Longrightarrow> \<not> suffix ''.'' a \<Longrightarrow>
   split_dotdot (a @ ''..'' @ b) = a # split_dotdot b"
  by (induction a rule: split_dotdot.induct) (auto simp: sublist_Cons_right suffix_Cons)

lemma decode_encoded:
  assumes "\<not> sublist ''..'' a" "\<not> suffix ''.'' a" "\<not> sublist ''..'' b"
  shows "decode (Some (a @ ''..'' @ b)) = (Some a, Some b)"
  using assms split_encoded[of a b] split_no_sep[of b] by (simp add: decode_def)

lemma first_piece_head:
  "split_dotdot (d # cs) = p # ps \<Longrightarrow> d \<noteq> CHR ''.'' \<Longrightarrow> \<exists>p'. p = d # p'"
  by (cases cs) (auto split: list.splits)

lemma first_piece_no_sep: "\<not> sublist ''..'' (hd (split_dotdot s))"
  by (induction s rule: split_dotdot.induct)
     (auto simp: sublist_Cons_right split: list.splits dest: first_piece_head)

lemma first_piece_no_dot:
  "split_dotdot s = p # q # rest \<Longrightarrow> \<not> suffix ''.'' p"
  by (induction s arbitrary: p q rest rule: split_dotdot.induct)
     (auto simp: suffix_Cons split: list.splits if_splits dest: first_piece_head)

lemma decode_encoded_iff:
  "decode (Some (a @ ''..'' @ b)) = (Some a, Some b) \<longleftrightarrow>
   \<not> sublist ''..'' a \<and> \<not> suffix ''.'' a \<and> \<not> sublist ''..'' b"
proof
  assume d: "decode (Some (a @ ''..'' @ b)) = (Some a, Some b)"
  then obtain rest where s: "split_dotdot (a @ ''..'' @ b) = a # b # rest"
    by (cases "split_dotdot (a @ ''..'' @ b)" rule: destructure2.cases)
       (auto simp: decode_def)
  have a1: "\<not> sublist ''..'' a"
    using first_piece_no_sep[of "a @ ''..'' @ b"] s by simp
  have a2: "\<not> suffix ''.'' a"
    using first_piece_no_dot[OF s] .
  have "split_dotdot b = b # rest"
    using split_encoded[OF a1 a2, of b] s by simp
  then have "\<not> sublist ''..'' b"
    using first_piece_no_sep[of b] by simp
  with a1 a2 show "\<not> sublist ''..'' a \<and> \<not> suffix ''.'' a \<and> \<not> sublist ''..'' b" by blast
next
  assume "\<not> sublist ''..'' a \<and> \<not> suffix ''.'' a \<and> \<not> sublist ''..'' b"
  then show "decode (Some (a @ ''..'' @ b)) = (Some a, Some b)"
    using decode_encoded[of a b] by blast
qed

lemma find_older_Some:
  "find_older (Some t) vs = Inr (find (\<lambda>v. capture_time v < capture_time t) vs)"
  by (induction vs) auto

lemma find_older_None: "find_older None vs = Inr r \<Longrightarrow> vs = [] \<and> r = None"
  by (cases vs) auto

lemma find_SomeD: "find P xs = Some x \<Longrightarrow> x \<in> set xs \<and> P x"
  by (induction xs) (auto split: if_splits)

lemma find_uuid:
  assumes "x \<in> set vs"
  shows "\<exists>y\<in>set vs. find (\<lambda>v. uuid v = uuid x) vs = Some y \<and> uuid y = uuid x"
proof (cases "find (\<lambda>v. uuid v = uuid x) vs")
  case None
  then show ?thesis using assms by (auto simp: find_None_iff)
next
  case (Some y)
  then show ?thesis using find_SomeD[OF Some] by auto
qed

lemma versionsToRender_invalid:
  assumes "versions pg = Some vs" and "decode (change props) = (fromId, toId)"
    and "find (\<lambda>v. Some (uuid v) = toId) vs = None \<or>
         (truthy fromId \<and> find (\<lambda>v. Some (uuid v) = fromId) vs = None)"
  shows "versionsToRender props pg = Inr (None, None)"
  using assms by (auto simp: versionsToRender_def)

lemma versionsToRender_valid:
  assumes "versions pg = Some vs" and "decode (change props) = (fromId, toId)"
    and "find (\<lambda>v. Some (uuid v) = toId) vs = Some t"
    and "truthy fromId \<longrightarrow> find (\<lambda>v. Some (uuid v) = fromId) vs \<noteq> None"
  shows "versionsToRender props pg = Inr (find (\<lambda>v. Some (uuid v) = fromId) vs, Some t)"
  using assms by (auto simp: versionsToRender_def)

text \<open>
  The redirecting branch of \<open>_renderChange\<close>: when one of the two versions to render is
  missing and a default \<open>to\<close> exists, the element is a redirect to the change from the first
  version of the list that is strictly older than \<open>to\<close> (or from \<open>to\<close> itself) to \<open>to\<close>.
\<close>

lemma renderChange_default:
  assumes "versions pg = Some vs" and "versionsToRender props pg = Inr (vfrom, vto)"
    and "vfrom = None \<or> vto = None"
    and "(case vto of Some t \<Rightarrow> Some t
          | None \<Rightarrow> (case vs of [] \<Rightarrow> None | v # _ \<Rightarrow> Some v)) = Some t"
  shows "renderChange props pg =
     Inr (Redirect (''/page/'' @ pageId props @ ''/'' @
        uuid (case find (\<lambda>v. capture_time v < capture_time t) vs of Some f \<Rightarrow> f | None \<Rightarrow> t)
        @ ''..'' @ uuid t))"
  using assms
  by (auto simp: renderChange_def find_older_Some getChangeUrl_def changeId_def
           split: option.splits)

lemma redirect_shape:
  assumes "versions pg = Some vs" and "renderChange props pg = Inr (Redirect u)"
  shows "\<exists>f\<in>set vs. \<exists>t\<in>set vs. u = ''/page/'' @ pageId props @ ''/'' @ uuid f @ ''..'' @ uuid t"
proof -
  obtain vfrom vto where v: "versionsToRender props pg = Inr (vfrom, vto)"
    using assms by (cases "versionsToRender props pg") (auto simp: renderChange_def)
  have vto_in: "vto = Some t \<Longrightarrow> t \<in> set vs" for t
    using v assms(1)
    by (auto simp: versionsToRender_def Let_def split: prod.splits if_splits dest: find_SomeD)
  define to where
    "to = (case vto of Some t \<Rightarrow> Some t | None \<Rightarrow> (case vs of [] \<Rightarrow> None | v # _ \<Rightarrow> Some v))"
  have nv: "vfrom = None \<or> vto = None"
    using assms v by (auto simp: renderChange_def split: option.splits)
  have to_in: "to = Some t \<Longrightarrow> t \<in> set vs" for t
    using vto_in by (auto simp: to_def split: option.splits list.splits)
  obtain t where t: "to = Some t"
    using assms v nv
    by (cases to)
       (auto simp: renderChange_def to_def Let_def
             split: option.splits sum.splits list.splits dest: find_older_None)
  have "renderChange props pg =
     Inr (Redirect (''/page/'' @ pageId props @ ''/'' @
        uuid (case find (\<lambda>v. capture_time v < capture_time t) vs of Some f \<Rightarrow> f | None \<Rightarrow> t)
        @ ''..'' @ uuid t))"
    using renderChange_default[OF assms(1) v nv] t by (simp add: to_def)
  moreover have
    "(case find (\<lambda>v. capture_time v < capture_time t) vs of Some f \<Rightarrow> f | None \<Rightarrow> t) \<in> set vs"
    using to_in[OF t] by (auto split: option.splits dest: find_SomeD)
  ultimately show ?thesis using assms(2) to_in[OF t] by auto
qed

lemma findIndex_absent: "\<forall>x\<in>set xs. \<not> P x \<Longrightarrow> findIndex P xs = - 1"
  by (induction xs) (auto simp: Let_def)

lemma findIndex_first:
  "i < length xs \<Longrightarrow> P (xs ! i) \<Longrightarrow> \<forall>j<i. \<not> P (xs ! j) \<Longrightarrow> findIndex P xs = int i"
proof (induction xs arbitrary: i)
  case Nil
  then show ?case by simp
next
  case (Cons x xs)
  show ?case
  proof (cases i)
    case 0
    with Cons.prems show ?thesis by simp
  next
    case (Suc k)
    with Cons.prems have "\<not> P x" by auto
    moreover have "\<forall>j<k. \<not> P (xs ! j)"
    proof (intro allI impI)
      fix j assume "j < k"
      then have "Suc j < i" using Suc by simp
      with Cons.prems(3) have "\<not> P ((x # xs) ! Suc j)" by blast
      then show "\<not> P (xs ! j)" by simp
    qed
    moreover have "k < length xs" "P (xs ! k)" using Cons.prems Suc by auto
    ultimately have "findIndex P xs = int k" "\<not> P x"
      using Cons.IH[of k] by auto
    then show ?thesis using Suc by (simp add: Let_def)
  qed
qed

section \<open>The change token: decoding and encoding\<close>

text \<open>
  C2, as the code has it: a token without the separator \<open>..\<close> splits into one piece, which
  the destructuring assigns to \<open>fromId\<close>; \<open>toId\<close> is \<open>undefined\<close>. In particular the empty
  token, and a missing \<open>change\<close> parameter, decode to an empty \<open>fromId\<close> and an undefined
  \<open>toId\<close>.
\<close>

theorem decode_without_separator:
  "(\<not> sublist ''..'' s \<longrightarrow> decode (Some s) = (Some s, None))
   \<and> decode (Some []) = (Some [], None) \<and> decode None = (Some [], None)"
  by (simp add: decode_def split_no_sep)

theorem decode_without_separator_witness:
  "\<not> sublist ''..'' ''abc'' \<and> decode (Some ''abc'') = (Some ''abc'', None)"
proof -
  have h: "\<not> sublist ''..'' ''abc''" by (simp add: sublist_Cons_right)
  from decode_without_separator[of "''abc''"] h show ?thesis by blast
qed

text \<open>
  C2 as stated fails: the token \<open>abc\<close> has no separator, and its decoding has \<open>fromId\<close>
  equal to \<open>abc\<close>, not empty, and no \<open>toId\<close>.
\<close>

theorem decode_without_separator_counterexample:
  "decode (Some ''abc'') = (Some ''abc'', None) \<and> decode (Some ''abc'') \<noteq> (Some [], Some ''abc'')"
  by (simp add: decode_def)

text \<open>
  C5, with the condition the code needs: decoding the token that \<open>_getChangeUrl\<close> builds
  for two versions \<open>a\<close> and \<open>b\<close> gives back the two uuids exactly when the uuid of \<open>a\<close>
  neither contains \<open>..\<close> nor ends with a dot, and the uuid of \<open>b\<close> does not contain \<open>..\<close>.
\<close>

theorem decode_changeId_roundtrip:
  "decode (Some (changeId (Some a) (Some b))) = (Some (uuid a), Some (uuid b)) \<longleftrightarrow>
   \<not> sublist ''..'' (uuid a) \<and> \<not> suffix ''.'' (uuid a) \<and> \<not> sublist ''..'' (uuid b)"
  using decode_encoded_iff[of "uuid a" "uuid b"] by (simp add: changeId_def)

theorem decode_changeId_roundtrip_witness:
  "decode (Some (changeId (Some \<lparr>uuid = ''v1'', capture_time = 10\<rparr>)
                          (Some \<lparr>uuid = ''v2'', capture_time = 20\<rparr>)))
   = (Some ''v1'', Some ''v2'')"
proof -
  have h1: "\<not> sublist ''..'' (uuid \<lparr>uuid = ''v1'', capture_time = 10\<rparr>)"
    by (simp add: sublist_Cons_right)
  have h2: "\<not> suffix ''.'' (uuid \<lparr>uuid = ''v1'', capture_time = 10\<rparr>)"
    by (simp add: suffix_Cons)
  have h3: "\<not> sublist ''..'' (uuid \<lparr>uuid = ''v2'', capture_time = 20\<rparr>)"
    by (simp add: sublist_Cons_right)
  from decode_changeId_roundtrip[of "\<lparr>uuid = ''v1'', capture_time = 10\<rparr>"
      "\<lparr>uuid = ''v2'', capture_time = 20\<rparr>"] h1 h2 h3
  show ?thesis by simp
qed

text \<open>
  C5 as stated fails for a uuid that ends with a dot: the token of the versions with uuids
  \<open>a.\<close> and \<open>b\<close> is \<open>a...b\<close>, which splits behind the first two dots.
\<close>

theorem decode_changeId_roundtrip_counterexample:
  "decode (Some (changeId (Some \<lparr>uuid = ''a.'', capture_time = 10\<rparr>)
                          (Some \<lparr>uuid = ''b'', capture_time = 20\<rparr>)))
   = (Some ''a'', Some ''.b'')"
  by (simp add: decode_def changeId_def)

text \<open>
  C9: the token of \<open>_getChangeUrl\<close> is \<open>{from.uuid}..{to.uuid}\<close> when both versions are
  given and empty when either is missing, and the url is \<open>/page/{pageId}/{token}\<close>, where
  the page identifier is the route's \<open>pageId\<close> when no page is given (and also when the
  given page has an empty uuid), and the uuid of the given page otherwise.
\<close>

theorem getChangeUrl_token:
  "changeId (Some f) (Some t) = uuid f @ ''..'' @ uuid t
   \<and> changeId None to = [] \<and> changeId from None = []
   \<and> getChangeUrl props from to None = ''/page/'' @ pageId props @ ''/'' @ changeId from to
   \<and> getChangeUrl props from to (Some p) =
       ''/page/'' @ (if uuid p = [] then pageId props else uuid p) @ ''/'' @ changeId from to"
  by (simp add: changeId_def getChangeUrl_def split: option.splits)

section \<open>Resolving the versions of a change\<close>

text \<open>
  C4: for a page with at least one version and an empty change token (the \<open>change\<close>
  parameter missing or empty), \<open>_renderChange\<close> redirects to the change whose \<open>to\<close> is the
  head of the version list and whose \<open>from\<close> is the first version in list order with a
  capture time strictly less than that of \<open>to\<close>, or \<open>to\<close> itself when there is none.
\<close>

theorem empty_token_redirects_to_latest:
  assumes "versions pg = Some (v # vs)"
    and "change props = None \<or> change props = Some []"
  shows "renderChange props pg =
           Inr (Redirect (''/page/'' @ pageId props @ ''/'' @
             uuid (case find (\<lambda>x. capture_time x < capture_time v) (v # vs) of
                     Some f \<Rightarrow> f | None \<Rightarrow> v) @ ''..'' @ uuid v))"
proof -
  have d: "decode (change props) = (Some [], None)"
    using assms(2) by (auto simp: decode_def)
  have "versionsToRender props pg = Inr (None, None)"
    using versionsToRender_invalid[OF assms(1) d] by (simp add: find_None_iff)
  from renderChange_default[OF assms(1) this, of v] show ?thesis by simp
qed

theorem empty_token_redirects_to_latest_witness:
  "renderChange \<lparr>pages = None, pageId = ''p'', change = Some []\<rparr>
     \<lparr>uuid = ''p'', title = ''T'', url = ''u'',
      versions = Some [\<lparr>uuid = ''v3'', capture_time = 30\<rparr>,
                       \<lparr>uuid = ''v2'', capture_time = 20\<rparr>,
                       \<lparr>uuid = ''v1'', capture_time = 10\<rparr>]\<rparr>
   = Inr (Redirect ''/page/p/v2..v3'')"
proof -
  have h1: "versions \<lparr>uuid = ''p'', title = ''T'', url = ''u'',
      versions = Some [\<lparr>uuid = ''v3'', capture_time = 30\<rparr>,
                       \<lparr>uuid = ''v2'', capture_time = 20\<rparr>,
                       \<lparr>uuid = ''v1'', capture_time = 10\<rparr>]\<rparr>
    = Some (\<lparr>uuid = ''v3'', capture_time = 30\<rparr> #
            [\<lparr>uuid = ''v2'', capture_time = 20\<rparr>, \<lparr>uuid = ''v1'', capture_time = 10\<rparr>])"
    by simp
  have h2: "change \<lparr>pages = None, pageId = ''p'', change = Some []\<rparr> = None
            \<or> change \<lparr>pages = None, pageId = ''p'', change = Some []\<rparr> = Some []"
    by simp
  from empty_token_redirects_to_latest[OF h1 h2] show ?thesis by simp
qed

text \<open>
  C6: for a page whose version list is empty, \<open>_renderChange\<close> returns the "no saved
  versions" element, whatever the change token: no redirect, and no exception (the callback
  that reads \<open>to.capture_time\<close> never runs on an empty list).
\<close>

theorem no_versions_is_terminal:
  assumes "versions pg = Some []"
  shows "renderChange props pg = Inr NoSavedVersions"
  using assms
  by (cases "decode (change props)") (simp add: renderChange_def versionsToRender_def)

theorem no_versions_is_terminal_witness:
  "renderChange \<lparr>pages = None, pageId = ''p'', change = Some ''v1..v2''\<rparr>
     \<lparr>uuid = ''p'', title = ''T'', url = ''u'', versions = Some []\<rparr>
   = Inr NoSavedVersions"
proof -
  have h: "versions \<lparr>uuid = ''p'', title = ''T'', url = ''u'', versions = Some []\<rparr> = Some []"
    by simp
  from no_versions_is_terminal[OF h] show ?thesis .
qed

text \<open>
  C1, as the code has it: when \<open>fromId\<close> is empty, \<open>toId\<close> is the uuid of a version of the
  page and no version has the empty uuid, \<open>_versionsToRender\<close> answers the pair whose \<open>to\<close>
  is the first version with that uuid and whose \<open>from\<close> is absent; \<open>_renderChange\<close> then
  does not render that pair but redirects to the change from the first version in list
  order that is strictly older than \<open>to\<close> (or from \<open>to\<close> itself when there is none) to \<open>to\<close>.
\<close>

theorem unspecified_from_redirects:
  assumes "versions pg = Some vs"
    and "decode (change props) = (Some [], Some toId)"
    and "find (\<lambda>v. uuid v = toId) vs = Some t"
    and "\<forall>v\<in>set vs. uuid v \<noteq> []"
  shows "versionsToRender props pg = Inr (None, Some t) \<and>
         renderChange props pg =
           Inr (Redirect (''/page/'' @ pageId props @ ''/'' @
             uuid (case find (\<lambda>v. capture_time v < capture_time t) vs of
                     Some f \<Rightarrow> f | None \<Rightarrow> t) @ ''..'' @ uuid t))"
proof -
  have nf: "find (\<lambda>v. Some (uuid v) = Some []) vs = None"
    using assms(4) by (simp add: find_None_iff)
  have v: "versionsToRender props pg = Inr (None, Some t)"
    using versionsToRender_valid[OF assms(1,2)] assms(3) nf by simp
  show ?thesis
    using v renderChange_default[OF assms(1) v] by simp
qed

theorem unspecified_from_redirects_witness:
  "versionsToRender \<lparr>pages = None, pageId = ''p'', change = Some ''..v2''\<rparr>
     \<lparr>uuid = ''p'', title = ''T'', url = ''u'',
      versions = Some [\<lparr>uuid = ''v3'', capture_time = 30\<rparr>,
                       \<lparr>uuid = ''v2'', capture_time = 20\<rparr>,
                       \<lparr>uuid = ''v1'', capture_time = 10\<rparr>]\<rparr>
   = Inr (None, Some \<lparr>uuid = ''v2'', capture_time = 20\<rparr>)
   \<and> renderChange \<lparr>pages = None, pageId = ''p'', change = Some ''..v2''\<rparr>
     \<lparr>uuid = ''p'', title = ''T'', url = ''u'',
      versions = Some [\<lparr>uuid = ''v3'', capture_time = 30\<rparr>,
                       \<lparr>uuid = ''v2'', capture_time = 20\<rparr>,
                       \<lparr>uuid = ''v1'', capture_time = 10\<rparr>]\<rparr>
   = Inr (Redirect ''/page/p/v1..v2'')"
proof -
  let ?vs = "[\<lparr>uuid = ''v3'', capture_time = 30\<rparr>, \<lparr>uuid = ''v2'', capture_time = 20\<rparr>,
              \<lparr>uuid = ''v1'', capture_time = 10\<rparr>]"
  have h1: "versions \<lparr>uuid = ''p'', title = ''T'', url = ''u'', versions = Some ?vs\<rparr> = Some ?vs"
    by simp
  have h2: "decode (change \<lparr>pages = None, pageId = ''p'', change = Some ''..v2''\<rparr>)
            = (Some [], Some ''v2'')"
    by (simp add: decode_def)
  have h3: "find (\<lambda>v. uuid v = ''v2'') ?vs = Some \<lparr>uuid = ''v2'', capture_time = 20\<rparr>"
    by simp
  have h4: "\<forall>v\<in>set ?vs. uuid v \<noteq> []"
    by simp
  from unspecified_from_redirects[OF h1 h2 h3 h4] show ?thesis by simp
qed

text \<open>
  C1 as stated fails: with the versions \<open>v2\<close> (time 20) and \<open>v1\<close> (time 10) and the token
  \<open>..v2\<close>, whose \<open>fromId\<close> is empty and whose \<open>toId\<close> matches, a redirect is issued.
\<close>

theorem unspecified_from_counterexample:
  "renderChange \<lparr>pages = None, pageId = ''p'', change = Some ''..v2''\<rparr>
     \<lparr>uuid = ''p'', title = ''T'', url = ''u'',
      versions = Some [\<lparr>uuid = ''v2'', capture_time = 20\<rparr>,
                       \<lparr>uuid = ''v1'', capture_time = 10\<rparr>]\<rparr>
   = Inr (Redirect ''/page/p/v1..v2'')"
  by (simp add: renderChange_def versionsToRender_def decode_def getChangeUrl_def changeId_def)

text \<open>
  C3, as the code has it: for a page with at least one version and a token whose \<open>toId\<close>
  matches a version while its non-empty \<open>fromId\<close> matches none, \<open>_versionsToRender\<close> drops
  both versions, and the redirect goes to the change whose \<open>to\<close> is the head of the version
  list (the most recent version), with the first strictly older version (or \<open>to\<close> itself)
  as its \<open>from\<close>.
\<close>

theorem unknown_from_redirects_to_latest:
  assumes "versions pg = Some (v # vs)"
    and "decode (change props) = (Some fromId, Some toId)"
    and "fromId \<noteq> []"
    and "find (\<lambda>x. uuid x = fromId) (v # vs) = None"
    and "find (\<lambda>x. uuid x = toId) (v # vs) = Some t"
  shows "renderChange props pg =
           Inr (Redirect (''/page/'' @ pageId props @ ''/'' @
             uuid (case find (\<lambda>x. capture_time x < capture_time v) (v # vs) of
                     Some f \<Rightarrow> f | None \<Rightarrow> v) @ ''..'' @ uuid v))"
proof -
  have "versionsToRender props pg = Inr (None, None)"
    using versionsToRender_invalid[OF assms(1,2)] assms(3,4) by simp
  from renderChange_default[OF assms(1) this, of v] show ?thesis by simp
qed

theorem unknown_from_redirects_to_latest_witness:
  "renderChange \<lparr>pages = None, pageId = ''p'', change = Some ''zz..v1''\<rparr>
     \<lparr>uuid = ''p'', title = ''T'', url = ''u'',
      versions = Some [\<lparr>uuid = ''v3'', capture_time = 30\<rparr>,
                       \<lparr>uuid = ''v2'', capture_time = 20\<rparr>,
                       \<lparr>uuid = ''v1'', capture_time = 10\<rparr>]\<rparr>
   = Inr (Redirect ''/page/p/v2..v3'')"
proof -
  let ?v = "\<lparr>uuid = ''v3'', capture_time = 30\<rparr>"
  let ?vs = "[\<lparr>uuid = ''v2'', capture_time = 20\<rparr>, \<lparr>uuid = ''v1'', capture_time = 10\<rparr>]"
  have h1: "versions \<lparr>uuid = ''p'', title = ''T'', url = ''u'', versions = Some (?v # ?vs)\<rparr>
            = Some (?v # ?vs)"
    by simp
  have h2: "decode (change \<lparr>pages = None, pageId = ''p'', change = Some ''zz..v1''\<rparr>)
            = (Some ''zz'', Some ''v1'')"
    by (simp add: decode_def)
  have h3: "''zz'' \<noteq> []" by simp
  have h4: "find (\<lambda>x. uuid x = ''zz'') (?v # ?vs) = None" by simp
  have h5: "find (\<lambda>x. uuid x = ''v1'') (?v # ?vs) = Some \<lparr>uuid = ''v1'', capture_time = 10\<rparr>"
    by simp
  from unknown_from_redirects_to_latest[OF h1 h2 h3 h4 h5] show ?thesis by simp
qed

text \<open>
  C3 as stated fails: with the versions \<open>v3\<close>, \<open>v2\<close>, \<open>v1\<close> and the token \<open>zz..v2\<close> the
  redirect goes to \<open>v2..v3\<close>, whose \<open>to\<close> is the most recent version \<open>v3\<close> and not the
  version \<open>v2\<close> that \<open>toId\<close> matches.
\<close>

theorem unknown_from_counterexample:
  "renderChange \<lparr>pages = None, pageId = ''p'', change = Some ''zz..v2''\<rparr>
     \<lparr>uuid = ''p'', title = ''T'', url = ''u'',
      versions = Some [\<lparr>uuid = ''v3'', capture_time = 30\<rparr>,
                       \<lparr>uuid = ''v2'', capture_time = 20\<rparr>,
                       \<lparr>uuid = ''v1'', capture_time = 10\<rparr>]\<rparr>
   = Inr (Redirect ''/page/p/v2..v3'')"
  by (simp add: renderChange_def versionsToRender_def decode_def getChangeUrl_def changeId_def)

text \<open>
  C10, with the condition the code needs: when no version uuid of the page contains \<open>..\<close>
  or ends with a dot, every redirect that \<open>_renderChange\<close> issues goes to
  \<open>/page/{pageId}/{from.uuid}..{to.uuid}\<close> for two versions of the page, and rendering the
  page again under that token gives the change view of these two versions: no second redirect.
\<close>

theorem redirect_converges:
  assumes "versions pg = Some vs"
    and "\<forall>v\<in>set vs. \<not> sublist ''..'' (uuid v) \<and> \<not> suffix ''.'' (uuid v)"
    and "renderChange props pg = Inr (Redirect u)"
  shows "\<exists>f\<in>set vs. \<exists>t\<in>set vs.
           u = ''/page/'' @ pageId props @ ''/'' @ uuid f @ ''..'' @ uuid t \<and>
           renderChange (props\<lparr>change := Some (uuid f @ ''..'' @ uuid t)\<rparr>) pg
             = Inr (ChangeView f t pg)"
proof -
  obtain f0 t0 where in0: "f0 \<in> set vs" "t0 \<in> set vs"
    and u: "u = ''/page/'' @ pageId props @ ''/'' @ uuid f0 @ ''..'' @ uuid t0"
    using redirect_shape[OF assms(1,3)] by blast
  obtain f where f: "f \<in> set vs" "find (\<lambda>v. uuid v = uuid f0) vs = Some f" "uuid f = uuid f0"
    using find_uuid[OF in0(1)] by blast
  obtain t where t: "t \<in> set vs" "find (\<lambda>v. uuid v = uuid t0) vs = Some t" "uuid t = uuid t0"
    using find_uuid[OF in0(2)] by blast
  let ?p = "props\<lparr>change := Some (uuid f @ ''..'' @ uuid t)\<rparr>"
  have d: "decode (change ?p) = (Some (uuid f0), Some (uuid t0))"
    using decode_encoded[of "uuid f0" "uuid t0"] assms(2) in0 f(3) t(3) by simp
  have "versionsToRender ?p pg = Inr (Some f, Some t)"
    using versionsToRender_valid[OF assms(1) d, of t] f(2) t(2) by simp
  then have r: "renderChange ?p pg = Inr (ChangeView f t pg)"
    by (simp add: renderChange_def)
  have "u = ''/page/'' @ pageId props @ ''/'' @ uuid f @ ''..'' @ uuid t"
    using u f(3) t(3) by simp
  with r f(1) t(1) show ?thesis by blast
qed

theorem redirect_converges_witness:
  "\<exists>f\<in>set [\<lparr>uuid = ''v2'', capture_time = 20\<rparr>, \<lparr>uuid = ''v1'', capture_time = 10\<rparr>].
   \<exists>t\<in>set [\<lparr>uuid = ''v2'', capture_time = 20\<rparr>, \<lparr>uuid = ''v1'', capture_time = 10\<rparr>].
     ''/page/p/v1..v2'' = ''/page/'' @ ''p'' @ ''/'' @ uuid f @ ''..'' @ uuid t \<and>
     renderChange \<lparr>pages = None, pageId = ''p'', change = Some (uuid f @ ''..'' @ uuid t)\<rparr>
       \<lparr>uuid = ''p'', title = ''T'', url = ''u'',
        versions = Some [\<lparr>uuid = ''v2'', capture_time = 20\<rparr>,
                         \<lparr>uuid = ''v1'', capture_time = 10\<rparr>]\<rparr>
     = Inr (ChangeView f t
        \<lparr>uuid = ''p'', title = ''T'', url = ''u'',
         versions = Some [\<lparr>uuid = ''v2'', capture_time = 20\<rparr>,
                          \<lparr>uuid = ''v1'', capture_time = 10\<rparr>]\<rparr>)"
proof -
  let ?vs = "[\<lparr>uuid = ''v2'', capture_time = 20\<rparr>, \<lparr>uuid = ''v1'', capture_time = 10\<rparr>]"
  let ?pg = "\<lparr>uuid = ''p'', title = ''T'', url = ''u'', versions = Some ?vs\<rparr>"
  let ?props = "\<lparr>pages = None, pageId = ''p'', change = Some ''v2''\<rparr>"
  have h1: "versions ?pg = Some ?vs" by simp
  have h2: "\<forall>v\<in>set ?vs. \<not> sublist ''..'' (uuid v) \<and> \<not> suffix ''.'' (uuid v)"
    by (simp add: sublist_Cons_right suffix_Cons)
  have h3: "renderChange ?props ?pg = Inr (Redirect ''/page/p/v1..v2'')"
    by (simp add: renderChange_def versionsToRender_def decode_def getChangeUrl_def changeId_def)
  from redirect_converges[OF h1 h2 h3] show ?thesis by simp
qed

text \<open>
  C10 as stated fails for a uuid that ends with a dot: the page whose only version has the
  uuid \<open>v.\<close> is redirected to the token \<open>v...v.\<close>, and rendering under that token issues the
  same redirect again.
\<close>

theorem redirect_converges_counterexample:
  "renderChange \<lparr>pages = None, pageId = ''p'', change = None\<rparr>
     \<lparr>uuid = ''p'', title = ''T'', url = ''u'',
      versions = Some [\<lparr>uuid = ''v.'', capture_time = 10\<rparr>]\<rparr>
   = Inr (Redirect ''/page/p/v...v.'')
   \<and> renderChange \<lparr>pages = None, pageId = ''p'', change = Some ''v...v.''\<rparr>
     \<lparr>uuid = ''p'', title = ''T'', url = ''u'',
      versions = Some [\<lparr>uuid = ''v.'', capture_time = 10\<rparr>]\<rparr>
   = Inr (Redirect ''/page/p/v...v.'')"
  by (simp add: renderChange_def versionsToRender_def decode_def getChangeUrl_def changeId_def)

section \<open>The pager\<close>

text \<open>
  C8, as the code has it: \<open>findIndex\<close> answers the first index at which the uuid of the
  current page occurs. For a list of sibling pages in which that first index is \<open>i\<close>, the
  previous link goes to the page at index \<open>i - 1\<close> and the next link to the page at index
  \<open>i + 1\<close>, each of them being the placeholder \<open>#\<close> when that index is outside the list;
  when the uuid of the current page does not occur in the list, both links are the
  placeholder. \<open>_renderPager\<close> always returns the pager.
\<close>

theorem pager_links:
  assumes "pages props = Some ps"
  shows "(i < length ps \<and> uuid (ps ! i) = uuid pg \<and> (\<forall>j<i. uuid (ps ! j) \<noteq> uuid pg) \<longrightarrow>
            renderPager props pg =
              Some (Pager (if i = 0 then ''#'' else ''/page/'' @ uuid (ps ! (i - 1)))
                          (if Suc i < length ps then ''/page/'' @ uuid (ps ! Suc i) else ''#'')))
         \<and> ((\<forall>p\<in>set ps. uuid p \<noteq> uuid pg) \<longrightarrow> renderPager props pg = Some (Pager ''#'' ''#''))"
proof (intro conjI impI)
  assume h: "i < length ps \<and> uuid (ps ! i) = uuid pg \<and> (\<forall>j<i. uuid (ps ! j) \<noteq> uuid pg)"
  then have ix: "findIndex (\<lambda>p. uuid p = uuid pg) ps = int i"
    by (intro findIndex_first) auto
  show "renderPager props pg =
              Some (Pager (if i = 0 then ''#'' else ''/page/'' @ uuid (ps ! (i - 1)))
                          (if Suc i < length ps then ''/page/'' @ uuid (ps ! Suc i) else ''#''))"
    using assms h ix
    by (auto simp: renderPager_def at_index_def Let_def nat_add_distrib nat_diff_distrib)
next
  assume "\<forall>p\<in>set ps. uuid p \<noteq> uuid pg"
  then have "findIndex (\<lambda>p. uuid p = uuid pg) ps = - 1"
    by (intro findIndex_absent) auto
  then show "renderPager props pg = Some (Pager ''#'' ''#'')"
    using assms by (simp add: renderPager_def at_index_def)
qed

theorem pager_links_witness:
  "renderPager
     \<lparr>pages = Some [\<lparr>uuid = ''A'', title = [], url = [], versions = None\<rparr>,
                    \<lparr>uuid = ''B'', title = [], url = [], versions = None\<rparr>,
                    \<lparr>uuid = ''C'', title = [], url = [], versions = None\<rparr>],
      pageId = ''B'', change = None\<rparr>
     \<lparr>uuid = ''B'', title = [], url = [], versions = Some []\<rparr>
   = Some (Pager ''/page/A'' ''/page/C'')
   \<and> renderPager
     \<lparr>pages = Some [\<lparr>uuid = ''A'', title = [], url = [], versions = None\<rparr>,
                    \<lparr>uuid = ''B'', title = [], url = [], versions = None\<rparr>,
                    \<lparr>uuid = ''C'', title = [], url = [], versions = None\<rparr>],
      pageId = ''B'', change = None\<rparr>
     \<lparr>uuid = ''D'', title = [], url = [], versions = Some []\<rparr>
   = Some (Pager ''#'' ''#'')"
proof -
  let ?ps = "[\<lparr>uuid = ''A'', title = [], url = [], versions = None\<rparr>,
              \<lparr>uuid = ''B'', title = [], url = [], versions = None\<rparr>,
              \<lparr>uuid = ''C'', title = [], url = [], versions = None\<rparr>]"
  let ?props = "\<lparr>pages = Some ?ps, pageId = ''B'', change = None\<rparr>"
  let ?b = "\<lparr>uuid = ''B'', title = [], url = [], versions = Some []\<rparr>"
  let ?d = "\<lparr>uuid = ''D'', title = [], url = [], versions = Some []\<rparr>"
  have h: "pages ?props = Some ?ps" by simp
  have hb: "Suc 0 < length ?ps \<and> uuid (?ps ! Suc 0) = uuid ?b
            \<and> (\<forall>j<Suc 0. uuid (?ps ! j) \<noteq> uuid ?b)"
    by simp
  have hd: "\<forall>p\<in>set ?ps. uuid p \<noteq> uuid ?d" by simp
  from pager_links[OF h, of "Suc 0" ?b] hb
  have "renderPager ?props ?b = Some (Pager ''/page/A'' ''/page/C'')" by simp
  moreover from pager_links[OF h, of _ ?d] hd
  have "renderPager ?props ?d = Some (Pager ''#'' ''#'')" by blast
  ultimately show ?thesis by blast
qed

text \<open>
  C8 as stated fails on a list in which the uuid of the current page occurs twice: in the
  list \<open>B, A, B\<close> the uuid of the current page \<open>B\<close> occurs at index 2, whose neighbours
  are \<open>A\<close> before it and nothing behind it, but the pager is built around index 0: the
  previous link is the placeholder and the next link goes to \<open>A\<close>.
\<close>

theorem pager_links_counterexample:
  "uuid ([\<lparr>uuid = ''B'', title = [], url = [], versions = None\<rparr>,
          \<lparr>uuid = ''A'', title = [], url = [], versions = None\<rparr>,
          \<lparr>uuid = ''B'', title = [], url = [], versions = None\<rparr>] ! 2)
     = uuid \<lparr>uuid = ''B'', title = [], url = [], versions = Some []\<rparr>
   \<and> renderPager
     \<lparr>pages = Some [\<lparr>uuid = ''B'', title = [], url = [], versions = None\<rparr>,
                    \<lparr>uuid = ''A'', title = [], url = [], versions = None\<rparr>,
                    \<lparr>uuid = ''B'', title = [], url = [], versions = None\<rparr>],
      pageId = ''B'', change = None\<rparr>
     \<lparr>uuid = ''B'', title = [], url = [], versions = Some []\<rparr>
   = Some (Pager ''#'' ''/page/A'')
   \<and> renderPager
     \<lparr>pages = Some [\<lparr>uuid = ''B'', title = [], url = [], versions = None\<rparr>,
                    \<lparr>uuid = ''A'', title = [], url = [], versions = None\<rparr>,
                    \<lparr>uuid = ''B'', title = [], url = [], versions = None\<rparr>],
      pageId = ''B'', change = None\<rparr>
     \<lparr>uuid = ''B'', title = [], url = [], versions = Some []\<rparr>
   \<noteq> Some (Pager ''/page/A'' ''#'')"
  by (simp add: renderPager_def at_index_def)

section \<open>Loading pages out of order\<close>

text \<open>
  C7, as the code has it: the callback of \<open>_loadPage\<close> stores whatever page it receives.
  When the component is mounted for a page \<open>x\<close> that has to be fetched, then receives props
  for another page \<open>y\<close>, the load of \<open>y\<close> is fulfilled and the load of \<open>x\<close> is fulfilled after
  it, the page in the state is the one fetched for \<open>x\<close>: the late result is committed.
\<close>

theorem late_result_is_committed:
  assumes "pageId p1 \<noteq> pageId p2" and "pages p1 = None" and "getPage (pageId p1) = Some px"
  shows "state_page (run getPage (constructor p1)
           [ComponentWillMount, ComponentWillReceiveProps p2,
            PromiseFulfilled 1, PromiseFulfilled 0])
         = Some px"
  using assms
  by (auto simp: run_def constructor_def loadPage_def fulfilled_def Let_def split: option.splits)

theorem late_result_is_committed_witness:
  "state_page (run [''x'' \<mapsto> \<lparr>uuid = ''x'', title = [], url = [], versions = Some []\<rparr>]
       (constructor \<lparr>pages = None, pageId = ''x'', change = None\<rparr>)
       [ComponentWillMount,
        ComponentWillReceiveProps \<lparr>pages = None, pageId = ''y'', change = None\<rparr>,
        PromiseFulfilled 1, PromiseFulfilled 0])
   = Some \<lparr>uuid = ''x'', title = [], url = [], versions = Some []\<rparr>"
proof -
  let ?p1 = "\<lparr>pages = None, pageId = ''x'', change = None\<rparr>"
  let ?p2 = "\<lparr>pages = None, pageId = ''y'', change = None\<rparr>"
  let ?px = "\<lparr>uuid = ''x'', title = [], url = [], versions = Some []\<rparr>"
  have h1: "pageId ?p1 \<noteq> pageId ?p2" by simp
  have h2: "pages ?p1 = None" by simp
  have h3: "[''x'' \<mapsto> ?px] (pageId ?p1) = Some ?px" by simp
  from late_result_is_committed[of ?p1 ?p2 "[''x'' \<mapsto> ?px]" ?px, OF h1 h2 h3]
  show ?thesis .
qed

text \<open>
  C7 as stated fails: both pages are fetched, the load of \<open>y\<close> is fulfilled first and the
  load of \<open>x\<close> after it; the state then holds the page \<open>x\<close> while the route asks for \<open>y\<close>.
\<close>

theorem late_result_counterexample:
  "state_page (run [''x'' \<mapsto> \<lparr>uuid = ''x'', title = [], url = [], versions = Some []\<rparr>,
                    ''y'' \<mapsto> \<lparr>uuid = ''y'', title = [], url = [], versions = Some []\<rparr>]
       (constructor \<lparr>pages = None, pageId = ''x'', change = None\<rparr>)
       [ComponentWillMount,
        ComponentWillReceiveProps \<lparr>pages = None, pageId = ''y'', change = None\<rparr>,
        PromiseFulfilled 1, PromiseFulfilled 0])
   = Some \<lparr>uuid = ''x'', title = [], url = [], versions = Some []\<rparr>
   \<and> pageId (this_props (run [''x'' \<mapsto> \<lparr>uuid = ''x'', title = [], url = [], versions = Some []\<rparr>,
                    ''y'' \<mapsto> \<lparr>uuid = ''y'', title = [], url = [], versions = Some []\<rparr>]
       (constructor \<lparr>pages = None, pageId = ''x'', change = None\<rparr>)
       [ComponentWillMount,
        ComponentWillReceiveProps \<lparr>pages = None, pageId = ''y'', change = None\<rparr>,
        PromiseFulfilled 1, PromiseFulfilled 0]))
   = ''y''"
  by (simp add: run_def constructor_def loadPage_def fulfilled_def Let_def)

end
